theory Spec2Isabelle
  imports Complex_Main "HOL-Library.Sublist"
begin

section \<open>The tag database (coq/databases/tags/database.py)\<close>

subsection \<open>Tag records\<close>

text \<open>
  A \<^verbatim>\<open>Tag\<close> is a Python dictionary (a \<^verbatim>\<open>TypedDict\<close>): a finite map from field
  names to values. The values that occur are strings, integers and \<^verbatim>\<open>None\<close>.
\<close>

datatype pyval = PNone | PStr string | PInt int

type_synonym tag = "string \<rightharpoonup> pyval"

text \<open>\<^verbatim>\<open>_NIL_TAG\<close>, lines 19-30.\<close>

definition NIL_TAG :: tag where
  "NIL_TAG =
     [''language'' \<mapsto> PStr '''',
      ''path'' \<mapsto> PStr '''',
      ''line'' \<mapsto> PInt 0,
      ''kind'' \<mapsto> PStr '''',
      ''name'' \<mapsto> PStr '''',
      ''pattern'' \<mapsto> PNone,
      ''typeref'' \<mapsto> PNone,
      ''scope'' \<mapsto> PNone,
      ''scopeKind'' \<mapsto> PNone,
      ''access'' \<mapsto> PNone]"

text \<open>
  \<^verbatim>\<open>Tags = Mapping[str, Tuple[str, float, Sequence[Tag]]]\<close>: the items of the
  dictionary in iteration order, \<open>(filename, lang, mtime, tags)\<close>. A dictionary has
  no two items with the same key: \<open>distinct (map fst new)\<close>.
\<close>

type_synonym tags_map = "(string \<times> string \<times> real \<times> tag list) list"

definition keys :: "tags_map \<Rightarrow> string list" where
  "keys new = map fst new"

text \<open>
  \<^verbatim>\<open>dead | new.keys()\<close>: a Python set is modelled by the list of its elements in
  iteration order; the union holds every element of both once. Python fixes no order
  for it; the tables a reconciliation leaves depend on the elements only.
\<close>

definition py_union :: "string list \<Rightarrow> string list \<Rightarrow> string list" where
  "py_union xs ys = remdups (xs @ ys)"

subsection \<open>The storage engine\<close>

text \<open>
  The exceptions of \<^verbatim>\<open>sqlite3\<close> that matter, by the class that is raised:
  \<^verbatim>\<open>OperationalError\<close> (a locked file, an I/O failure), the one class the database
  layer handles; \<^verbatim>\<open>IntegrityError\<close> (a constraint violation); and
  \<^verbatim>\<open>DatabaseError\<close>, the base class of both, which \<^verbatim>\<open>sqlite3\<close> raises itself for
  a corrupt file or a file that is not a database. \<^verbatim>\<open>except OperationalError\<close> and
  \<^verbatim>\<open>suppress(OperationalError)\<close> catch the first only.
\<close>

datatype db_error = OperationalError | IntegrityError | DatabaseError

text \<open>The named parameters of the query \<^verbatim>\<open>sql("select", "tags")\<close>, lines 114-124.\<close>

record select_params =
  q_cut_off :: real
  q_look_ahead :: int
  q_limit :: int
  q_filename :: string
  q_line_num :: int
  q_word :: string
  q_sym :: string
  q_like_word :: string
  q_like_sym :: string

text \<open>
  The statements the code sends to a cursor, each with its bound parameters:
  \<^verbatim>\<open>sql("delete", "file")\<close>, \<^verbatim>\<open>sql("insert", "file")\<close>, \<^verbatim>\<open>sql("insert", "tag")\<close>,
  \<^verbatim>\<open>"PRAGMA optimize"\<close>, \<^verbatim>\<open>sql("select", "files")\<close> and \<^verbatim>\<open>sql("select", "tags")\<close>.
\<close>

datatype stmt =
    DeleteFile string
  | InsertFile "string \<times> string \<times> real"
  | InsertTag tag
  | PragmaOptimize
  | SelectFiles
  | SelectTags select_params

text \<open>
  A connection: the two tables, the outcomes the storage engine will give to the
  coming statements (\<open>Some e\<close>: the statement raises \<open>e\<close>; \<open>None\<close>, or nothing
  left: it runs), and the statements that ran since the current unit of work began.
  The connection is opened with \<^verbatim>\<open>isolation_level=None\<close> (line 38): every statement
  is committed as it runs, so a failure leaves the earlier statements applied.
\<close>

record connection =
  files :: "string \<rightharpoonup> string \<times> real"
  tags :: "tag list"
  pending :: "db_error option list"
  journal :: "stmt list"

text \<open>
  Modelled from the spec: the SQL texts (\<^verbatim>\<open>sql/\<close>) are not among the sources. A
  File Entry is \<open>filename \<mapsto> (filetype, mtime)\<close> with the filename as primary key;
  a tag belongs to the file its \<^verbatim>\<open>path\<close> names; deleting a File Entry deletes its
  tags with it; inserting a tag appends a row holding the bound parameters (the spec
  describes no check at that point).
\<close>

definition delete_file :: "string \<Rightarrow> connection \<Rightarrow> connection" where
  "delete_file f c =
     c\<lparr>files := (files c)(f := None),
       tags := filter (\<lambda>t. t ''path'' \<noteq> Some (PStr f)) (tags c)\<rparr>"

definition insert_file :: "string \<times> string \<times> real \<Rightarrow> connection \<Rightarrow> db_error + connection" where
  "insert_file entry c =
     (case entry of (f, ft, mt) \<Rightarrow>
        if files c f \<noteq> None then Inl IntegrityError
        else Inr (c\<lparr>files := (files c)(f \<mapsto> (ft, mt))\<rparr>))"

definition insert_tag :: "tag \<Rightarrow> connection \<Rightarrow> connection" where
  "insert_tag row c = c\<lparr>tags := tags c @ [row]\<rparr>"

fun run_stmt :: "stmt \<Rightarrow> connection \<Rightarrow> db_error + connection" where
  "run_stmt (DeleteFile f) c = Inr (delete_file f c)"
| "run_stmt (InsertFile entry) c = insert_file entry c"
| "run_stmt (InsertTag row) c = Inr (insert_tag row c)"
| "run_stmt PragmaOptimize c = Inr c"
| "run_stmt SelectFiles c = Inr c"
| "run_stmt (SelectTags ps) c = Inr c"

text \<open>
  \<^verbatim>\<open>cursor.execute\<close>: the engine's next outcome decides whether the statement
  raises; a statement that raises changes no table.
\<close>

definition cursor_execute :: "stmt \<Rightarrow> connection \<Rightarrow> db_error option \<times> connection" where
  "cursor_execute st c =
     (case pending c of
        Some e # rest \<Rightarrow> (Some e, c\<lparr>pending := rest\<rparr>)
      | _ \<Rightarrow>
          (let c0 = c\<lparr>pending := tl (pending c)\<rparr> in
           case run_stmt st c0 of
             Inl e \<Rightarrow> (Some e, c0)
           | Inr c1 \<Rightarrow> (None, c1\<lparr>journal := journal c1 @ [st]\<rparr>)))"

text \<open>
  \<^verbatim>\<open>cursor.executemany(sql, params)\<close>: the statement once for each parameter set,
  in order, stopping at the first that raises.
\<close>

fun execute_each :: "stmt list \<Rightarrow> connection \<Rightarrow> db_error option \<times> connection" where
  "execute_each [] c = (None, c)"
| "execute_each (st # sts) c =
     (case cursor_execute st c of
        (Some e, c') \<Rightarrow> (Some e, c')
      | (None, c') \<Rightarrow> execute_each sts c')"

definition cursor_executemany ::
  "('p \<Rightarrow> stmt) \<Rightarrow> 'p list \<Rightarrow> connection \<Rightarrow> db_error option \<times> connection" where
  "cursor_executemany sql params c = execute_each (map sql params) c"

text \<open>One call after another inside a \<^verbatim>\<open>with\<close> block: an exception skips the rest.\<close>

definition and_then ::
  "(connection \<Rightarrow> db_error option \<times> connection) \<Rightarrow>
   (connection \<Rightarrow> db_error option \<times> connection) \<Rightarrow>
   connection \<Rightarrow> db_error option \<times> connection" where
  "and_then f g c = (case f c of (Some e, c') \<Rightarrow> (Some e, c') | (None, c') \<Rightarrow> g c')"

subsection \<open>The executor and the database object\<close>

text \<open>
  \<^verbatim>\<open>CTDB\<close>: the connection \<^verbatim>\<open>self._conn\<close> and, for \<^verbatim>\<open>self._ex\<close>, the units of
  work the executor has run, each with the statements that ran in it.
  \<^verbatim>\<open>SingleThreadExecutor\<close> is not among the sources; \<open>submit\<close> runs one unit of work
  on the connection and hands its result, or its exception, to the submitter.
\<close>

record ctdb =
  conn :: connection
  units :: "stmt list list"

definition submit :: "(connection \<Rightarrow> 'r \<times> connection) \<Rightarrow> ctdb \<Rightarrow> 'r \<times> ctdb" where
  "submit cont s =
     (case cont ((conn s)\<lparr>journal := []\<rparr>) of
        (r, c') \<Rightarrow> (r, s\<lparr>conn := c', units := units s @ [journal c']\<rparr>))"

subsection \<open>reconciliate, lines 73-99\<close>

text \<open>
  The generators \<^verbatim>\<open>m1\<close> and \<^verbatim>\<open>m2\<close>: the parameter sets of the file insertions
  (\<open>filename\<close>, \<open>filetype\<close>, \<open>mtime\<close>) and of the tag insertions
  (\<^verbatim>\<open>{**_NIL_TAG, **tag}\<close>: the template, overridden by the tag's own items).
\<close>

definition m1 :: "tags_map \<Rightarrow> (string \<times> string \<times> real) list" where
  "m1 new = map (\<lambda>(filename, lang, mtime, _). (filename, lang, mtime)) new"

definition m2 :: "tags_map \<Rightarrow> tag list" where
  "m2 new = concat (map (\<lambda>(_, _, _, tgs). map (\<lambda>tag. NIL_TAG ++ tag) tgs) new)"

text \<open>\<^verbatim>\<open>with suppress(OperationalError)\<close>.\<close>

definition suppress :: "db_error option \<times> connection \<Rightarrow> db_error option \<times> connection" where
  "suppress rc = (case rc of (Some OperationalError, c) \<Rightarrow> (None, c) | _ \<Rightarrow> rc)"

definition reconciliate_cont ::
  "string list \<Rightarrow> tags_map \<Rightarrow> connection \<Rightarrow> db_error option \<times> connection" where
  "reconciliate_cont dead new c =
     suppress
       (and_then (cursor_executemany DeleteFile (py_union dead (keys new)))
         (and_then (cursor_executemany InsertFile (m1 new))
           (and_then (cursor_executemany InsertTag (m2 new))
             (cursor_execute PragmaOptimize))) c)"

definition reconciliate :: "string list \<Rightarrow> tags_map \<Rightarrow> ctdb \<Rightarrow> db_error option \<times> ctdb" where
  "reconciliate dead new s = submit (reconciliate_cont dead new) s"

subsection \<open>paths, lines 61-71\<close>



subsection \<open>select, lines 101-133\<close>

text \<open>
  The interruption scope around the call (\<^verbatim>\<open>self._interruption()\<close>, of
  \<^verbatim>\<open>Interruptible\<close>, not among the sources) cancels a caller that waits; it does
  not touch the unit of work and is left out.
\<close>

text \<open>The fields of \<^verbatim>\<open>MatchOptions\<close> that \<^verbatim>\<open>select\<close> reads.\<close>

record match_options =
  fuzzy_cutoff :: real
  look_ahead :: int
  max_results :: int
  exact_matches :: int

text \<open>
  \<^verbatim>\<open>shared.sql\<close> is not among the sources: the constant \<^verbatim>\<open>BIGGEST_INT\<close> and the
  function \<^verbatim>\<open>like_esc\<close> are parameters. So is \<open>matches\<close>, the rows the query
  \<^verbatim>\<open>sql("select", "tags")\<close> finds for its parameters, in rank order, before its limit
  applies: the spec leaves the scoring open.
\<close>

record shared_sql =
  BIGGEST_INT :: int
  like_esc :: "string \<Rightarrow> string"
  matches :: "select_params \<Rightarrow> (string \<rightharpoonup> string \<times> real) \<Rightarrow> tag list \<Rightarrow> tag list"

text \<open>The slice \<^verbatim>\<open>s[:n]\<close>: a negative \<open>n\<close> counts from the end.\<close>

definition py_slice_to :: "string \<Rightarrow> int \<Rightarrow> string" where
  "py_slice_to s n = (if 0 \<le> n then take (nat n) s else take (length s - nat (- n)) s)"

text \<open>
  Modelled from the spec: the query returns at most \<^verbatim>\<open>:limit\<close> of the matching rows
  (the SQL text is not among the sources). As in SQLite, a negative limit is no limit.
\<close>

definition sql_limit :: "int \<Rightarrow> 'a list \<Rightarrow> 'a list" where
  "sql_limit n rows = (if n < 0 then rows else take (nat n) rows)"

definition select_tags :: "shared_sql \<Rightarrow> select_params \<Rightarrow> connection \<Rightarrow> tag list" where
  "select_tags env ps c = sql_limit (q_limit ps) (matches env ps (files c) (tags c))"

definition select_query ::
  "shared_sql \<Rightarrow> match_options \<Rightarrow> string \<Rightarrow> int \<Rightarrow> string \<Rightarrow> string \<Rightarrow> int \<Rightarrow> select_params" where
  "select_query env opts filename line_num word symb limitless =
     \<lparr>q_cut_off = fuzzy_cutoff opts,
      q_look_ahead = look_ahead opts,
      q_limit = (if limitless \<noteq> 0 then BIGGEST_INT env else max_results opts),
      q_filename = filename,
      q_line_num = line_num,
      q_word = word,
      q_sym = symb,
      q_like_word = like_esc env (py_slice_to word (exact_matches opts)),
      q_like_sym = like_esc env (py_slice_to symb (exact_matches opts))\<rparr>"

definition select_cont ::
  "shared_sql \<Rightarrow> match_options \<Rightarrow> string \<Rightarrow> int \<Rightarrow> string \<Rightarrow> string \<Rightarrow> int \<Rightarrow>
   connection \<Rightarrow> (db_error + tag list) \<times> connection" where
  "select_cont env opts filename line_num word symb limitless c =
     (let ps = select_query env opts filename line_num word symb limitless in
      case cursor_execute (SelectTags ps) c of
        (Some e, c') \<Rightarrow> (Inl e, c')
      | (None, c') \<Rightarrow> (Inr (select_tags env ps c'), c'))"

definition select ::
  "shared_sql \<Rightarrow> match_options \<Rightarrow> string \<Rightarrow> int \<Rightarrow> string \<Rightarrow> string \<Rightarrow> int \<Rightarrow>
   ctdb \<Rightarrow> (db_error + tag list) \<times> ctdb" where
  "select env opts filename line_num word symb limitless s =
     (case submit (select_cont env opts filename line_num word symb limitless) s of
        (Inl OperationalError, s') \<Rightarrow> (Inr [], s')
      | rs \<Rightarrow> rs)"

subsection \<open>The database file, lines 33-36\<close>

definition SCHEMA :: string where
  "SCHEMA = ''v5''"

text \<open>
  The library functions \<^verbatim>\<open>_init\<close> names the file with: \<^verbatim>\<open>os.path.normcase\<close>,
  \<^verbatim>\<open>pynvim_pp.lib.encode\<close> and \<^verbatim>\<open>hashlib.md5(...).hexdigest()\<close>.
\<close>

record 'b naming =
  normcase :: "string \<Rightarrow> string"
  encode :: "string \<Rightarrow> 'b"
  md5_hexdigest :: "'b \<Rightarrow> string"

text \<open>
  \<^verbatim>\<open>PurePath.suffix\<close> and \<^verbatim>\<open>PurePath.with_suffix\<close> on the last component of a
  path: the suffix starts at the last dot, unless that dot is the first or the last
  character of the name.
\<close>

definition rfind_dot :: "string \<Rightarrow> nat option" where
  "rfind_dot name =
     (case filter (\<lambda>i. name ! i = CHR ''.'') (rev [0..<length name]) of
        [] \<Rightarrow> None
      | i # _ \<Rightarrow> Some i)"

definition suffix_of :: "string \<Rightarrow> string" where
  "suffix_of name =
     (case rfind_dot name of
        None \<Rightarrow> []
      | Some i \<Rightarrow> if 0 < i \<and> i < length name - 1 then drop i name else [])"

definition with_suffix :: "string \<Rightarrow> string \<Rightarrow> string" where
  "with_suffix name sfx = take (length name - length (suffix_of name)) name @ sfx"

text \<open>
  A path is the list of its components. \<open>db_file\<close> is the first three lines of
  \<^verbatim>\<open>_init\<close>: the path of the database of the working directory \<open>cwd\<close> under
  \<open>db_dir\<close>.
\<close>

definition db_name :: "'b naming \<Rightarrow> string \<Rightarrow> string" where
  "db_name lib cwd = md5_hexdigest lib (encode lib (normcase lib cwd)) @ ''-'' @ SCHEMA"

definition db_file :: "'b naming \<Rightarrow> string list \<Rightarrow> string \<Rightarrow> string list" where
  "db_file lib db_dir cwd = db_dir @ [with_suffix (db_name lib cwd) ''.sqlite3'']"

section \<open>The tree-sitter worker (coq/clients/tree_sitter/worker.py)\<close>

subsection \<open>Futures and the current request\<close>

text \<open>
  An \<^verbatim>\<open>asyncio.Future\<close> is pending, cancelled, or finished with a result.
  \<^verbatim>\<open>cancel()\<close> changes a pending future only; \<^verbatim>\<open>set_result\<close> raises
  \<^verbatim>\<open>InvalidStateError\<close> on a future that is not pending.
\<close>

datatype 'a future = Pending | Cancelled | Finished 'a

datatype py_error = ValueError | InvalidStateError

definition cancel :: "'a future \<Rightarrow> 'a future" where
  "cancel fut = (case fut of Pending \<Rightarrow> Cancelled | _ \<Rightarrow> fut)"

definition set_result :: "'a \<Rightarrow> 'a future \<Rightarrow> py_error + 'a future" where
  "set_result reply fut = (case fut of Pending \<Rightarrow> Inr (Finished reply) | _ \<Rightarrow> Inl InvalidStateError)"

text \<open>
  Futures are objects shared between the worker and the callers that await them: they
  live in a store, addressed by their index. \<^verbatim>\<open>self._cur\<close> is a token (a UUID,
  compared for equality only) and the address of a future.
\<close>

record 'a worker =
  cur :: "nat \<times> nat"
  futs :: "'a future list"

definition new_future :: "'a worker \<Rightarrow> nat \<times> 'a worker" where
  "new_future w = (length (futs w), w\<lparr>futs := futs w @ [Pending]\<rparr>)"


text \<open>
  \<^verbatim>\<open>_req\<close> runs in two steps with \<^verbatim>\<open>await sleep(0)\<close> between them, where other
  coroutines run: lines 30-31 cancel the future of \<^verbatim>\<open>self._cur\<close>; line 33 installs
  a fresh token (what \<^verbatim>\<open>uuid4()\<close> returns) and a new future. The rest of
  \<^verbatim>\<open>_req\<close> sends the token to the editor and awaits the new future: it reads the
  store and changes nothing.
\<close>

definition req_cancel :: "'a worker \<Rightarrow> 'a worker" where
  "req_cancel w =
     (case cur w of (_, fut) \<Rightarrow> w\<lparr>futs := (futs w)[fut := cancel (futs w ! fut)]\<rparr>)"

definition req_install :: "nat \<Rightarrow> 'a worker \<Rightarrow> 'a worker" where
  "req_install token w = (case new_future w of (fut, w') \<Rightarrow> w'\<lparr>cur := (token, fut)\<rparr>)"

text \<open>\<^verbatim>\<open>notify\<close>, lines 44-49. Unpacking an empty \<open>msg\<close> raises \<^verbatim>\<open>ValueError\<close>.\<close>

definition notify :: "nat \<Rightarrow> 'a list \<Rightarrow> 'a worker \<Rightarrow> py_error option \<times> 'a worker" where
  "notify token msg w =
     (case cur w of (c_token, fut) \<Rightarrow>
        if token = c_token then
          (case msg of
             [] \<Rightarrow> (Some ValueError, w)
           | reply # _ \<Rightarrow>
               (case set_result reply (futs w ! fut) of
                  Inl InvalidStateError \<Rightarrow> (None, w)
                | Inl e \<Rightarrow> (Some e, w)
                | Inr done \<Rightarrow> (None, w\<lparr>futs := (futs w)[fut := done]\<rparr>)))
        else (None, w))"

text \<open>What can happen to a worker, one atomic step at a time.\<close>

datatype 'a event = ReqCancel | ReqInstall nat | Notify nat "'a list"

fun step :: "'a event \<Rightarrow> 'a worker \<Rightarrow> 'a worker" where
  "step ReqCancel w = req_cancel w"
| "step (ReqInstall token) w = req_install token w"
| "step (Notify token msg) w = snd (notify token msg w)"

definition run :: "'a event list \<Rightarrow> 'a worker \<Rightarrow> 'a worker" where
  "run evs w = fold step evs w"


subsection \<open>work, lines 51-66\<close>

record ctx =
  words :: string
  syms :: string

record payload =
  payload_text :: string

record edit =
  new_text :: string

record completion =
  source :: string
  tie_breaker :: int
  label :: string
  sort_by :: string
  primary_edit :: edit

text \<open>\<^verbatim>\<open>self._options\<close>: the fields of \<^verbatim>\<open>BaseClient\<close> that \<^verbatim>\<open>work\<close> reads.\<close>

record base_client =
  short_name :: string
  options_tie_breaker :: int

text \<open>
  The string functions \<^verbatim>\<open>work\<close> calls and the sources do not hold:
  \<^verbatim>\<open>shared.parse.lower\<close>, \<^verbatim>\<open>str.strip\<close> and \<^verbatim>\<open>locale.strxfrm\<close>.
\<close>

record strings =
  lower :: "string \<Rightarrow> string"
  strip :: "string \<Rightarrow> string"
  strxfrm :: "string \<Rightarrow> string"

text \<open>\<^verbatim>\<open>context.words or context.syms\<close>: the first operand unless it is empty.\<close>

definition py_or :: "string \<Rightarrow> string \<Rightarrow> string" where
  "py_or a b = (if a = [] then b else a)"

definition startswith :: "string \<Rightarrow> string \<Rightarrow> bool" where
  "startswith s pre = prefix pre s"

definition accepts :: "strings \<Rightarrow> string \<Rightarrow> payload \<Rightarrow> bool" where
  "accepts lib match p =
     (startswith (lower lib (payload_text p)) match \<and> length (payload_text p) > length match)"

definition make_completion :: "strings \<Rightarrow> base_client \<Rightarrow> payload \<Rightarrow> completion" where
  "make_completion lib options p =
     (let ltext = lower lib (payload_text p);
          edit = \<lparr>new_text = payload_text p\<rparr>
      in \<lparr>source = short_name options,
          tie_breaker = options_tie_breaker options,
          label = strip lib (new_text edit),
          sort_by = strxfrm lib ltext,
          primary_edit = edit\<rparr>)"

text \<open>
  Line 53 does not await \<^verbatim>\<open>self._req\<close>: what reaches \<^verbatim>\<open>_DECODER\<close> is the coroutine
  (or \<^verbatim>\<open>()\<close>), and the decoder (\<^verbatim>\<open>std2.pickle\<close>) is not among the sources. Its
  outcome is the parameter \<open>decoded\<close>: an exception, raised before anything is
  yielded, or the payloads \<open>resp\<close> the loop runs over. The result is the list of the
  completions yielded, in order.
\<close>

definition work ::
  "strings \<Rightarrow> base_client \<Rightarrow> ctx \<Rightarrow> py_error + payload list \<Rightarrow> py_error + completion list" where
  "work lib options c decoded =
     (let match = lower lib (py_or (words c) (syms c)) in
      case decoded of
        Inl e \<Rightarrow> Inl e
      | Inr resp \<Rightarrow> Inr (map (make_completion lib options) (filter (accepts lib match) resp)))"

section \<open>Notions the statements use\<close>

text \<open>The statements of one reconciliation, in the order the unit of work sends them.\<close>

definition reconciliate_stmts :: "string list \<Rightarrow> tags_map \<Rightarrow> stmt list" where
  "reconciliate_stmts dead new =
     map DeleteFile (py_union dead (keys new)) @
     map InsertFile (m1 new) @
     map InsertTag (m2 new) @
     [PragmaOptimize]"

text \<open>The tables a reconciliation leaves when the engine raises nothing.\<close>

definition reconciled_files ::
  "string list \<Rightarrow> tags_map \<Rightarrow> (string \<rightharpoonup> string \<times> real) \<Rightarrow> (string \<rightharpoonup> string \<times> real)" where
  "reconciled_files dead new fs =
     (\<lambda>f. if f \<in> set dead \<union> set (keys new) then None else fs f) ++ map_of (m1 new)"

definition reconciled_tags :: "string list \<Rightarrow> tags_map \<Rightarrow> tag list \<Rightarrow> tag list" where
  "reconciled_tags dead new ts =
     filter (\<lambda>t. \<forall>f\<in>set dead \<union> set (keys new). t ''path'' \<noteq> Some (PStr f)) ts @ m2 new"

text \<open>
  Modelled from the spec: the sources hold no query for the tags of one file; they are
  the rows of the tag table whose \<^verbatim>\<open>path\<close> is the file.
\<close>

definition tags_of :: "string \<Rightarrow> connection \<Rightarrow> tag list" where
  "tags_of f c = filter (\<lambda>t. t ''path'' = Some (PStr f)) (tags c)"

text \<open>What \<^verbatim>\<open>hexdigest()\<close> of an MD5 hash returns: 32 lower-case hexadecimal digits.\<close>

definition is_hexdigest :: "string \<Rightarrow> bool" where
  "is_hexdigest d = (length d = 32 \<and> set d \<subseteq> set ''0123456789abcdef'')"

section \<open>Example data\<close>

definition tag_f :: tag where
  "tag_f = [''path'' \<mapsto> PStr ''a.py'', ''name'' \<mapsto> PStr ''f'', ''line'' \<mapsto> PInt 3]"

definition tag_g :: tag where
  "tag_g = [''path'' \<mapsto> PStr ''b.py'', ''name'' \<mapsto> PStr ''g'']"

definition tag_old :: tag where
  "tag_old = [''path'' \<mapsto> PStr ''a.py'', ''name'' \<mapsto> PStr ''old'']"

text \<open>A database that holds the files \<^verbatim>\<open>a.py\<close>, with one tag, and \<^verbatim>\<open>b.py\<close>.\<close>

definition db0 :: ctdb where
  "db0 =
     \<lparr>conn =
        \<lparr>files = [''a.py'' \<mapsto> (''python'', 1), ''b.py'' \<mapsto> (''python'', 1)],
         tags = [NIL_TAG ++ tag_old],
         pending = [],
         journal = []\<rparr>,
      units = []\<rparr>"

definition new_a :: tags_map where
  "new_a = [(''a.py'', ''python'', 2, [tag_f])]"

definition new_b :: tags_map where
  "new_b = [(''a.py'', ''python'', 2, [tag_g])]"


definition env0 :: shared_sql where
  "env0 = \<lparr>BIGGEST_INT = 2 ^ 63 - 1, like_esc = (\<lambda>s. s), matches = (\<lambda>ps fs ts. ts)\<rparr>"

definition opts0 :: match_options where
  "opts0 = \<lparr>fuzzy_cutoff = 1 / 2, look_ahead = 3, max_results = 33, exact_matches = 2\<rparr>"

definition opts_neg :: match_options where
  "opts_neg = opts0\<lparr>max_results := - 1\<rparr>"

definition opts_none :: match_options where
  "opts_none = opts0\<lparr>max_results := 0\<rparr>"

text \<open>
  A stand-in for the library functions, for evaluation: \<open>normcase\<close> as on Windows for
  the letters that occur, the encoding as the identity, and two digests.
\<close>

definition lib0 :: "string naming" where
  "lib0 =
     \<lparr>normcase = map (\<lambda>c. if c = CHR ''P'' then CHR ''p'' else c),
      encode = (\<lambda>s. s),
      md5_hexdigest =
        (\<lambda>b. if b = ''/p'' then ''5cf1a64bfd55ed5e7bc5b4a9a0b3e010''
             else ''d41d8cd98f00b204e9800998ecf8427e'')\<rparr>"

text \<open>Stand-ins for the string functions, for evaluation: ASCII letters to lower case.\<close>

definition ascii_lower :: "string \<Rightarrow> string" where
  "ascii_lower s =
     map (\<lambda>c. case map_of (zip ''ABCDEFGHIJKLMNOPQRSTUVWXYZ'' ''abcdefghijklmnopqrstuvwxyz'') c of
                 Some l \<Rightarrow> l
               | None \<Rightarrow> c) s"

definition lib1 :: strings where
  "lib1 = \<lparr>lower = ascii_lower, strip = (\<lambda>s. s), strxfrm = (\<lambda>s. s)\<rparr>"

definition ts_options :: base_client where
  "ts_options = \<lparr>short_name = ''TS'', options_tie_breaker = 0\<rparr>"

definition ctx1 :: ctx where
  "ctx1 = \<lparr>words = ''Fo'', syms = ''#Fo''\<rparr>"

definition resp1 :: "payload list" where
  "resp1 =
     [\<lparr>payload_text = ''Foo''\<rparr>, \<lparr>payload_text = ''fo''\<rparr>,
      \<lparr>payload_text = ''bar''\<rparr>, \<lparr>payload_text = ''FOX''\<rparr>]"

section \<open>Running statement lists\<close>

lemma execute_each_append:
  "execute_each (xs @ ys) c = and_then (execute_each xs) (execute_each ys) c"
  by (induction xs arbitrary: c) (auto simp: and_then_def split: prod.splits option.splits)

lemma execute_each_single: "execute_each [st] c = cursor_execute st c"
  by (simp split: prod.splits option.splits)

lemma reconciliate_cont_stmts:
  "reconciliate_cont dead new c = suppress (execute_each (reconciliate_stmts dead new) c)"
  unfolding reconciliate_cont_def reconciliate_stmts_def cursor_executemany_def
    execute_each_append execute_each_single
  by (rule refl)

lemma execute_each_append_None:
  "execute_each xs c = (None, c1) \<Longrightarrow> execute_each (xs @ ys) c = execute_each ys c1"
  by (simp add: execute_each_append and_then_def)

lemma cursor_execute_healthy:
  "pending c = [] \<Longrightarrow> cursor_execute st c =
     (case run_stmt st c of Inl e \<Rightarrow> (Some e, c) | Inr c1 \<Rightarrow> (None, c1\<lparr>journal := journal c1 @ [st]\<rparr>))"
  by (cases c) (simp add: cursor_execute_def Let_def split: sum.splits)



lemma cursor_execute_journal:
  "cursor_execute st c = (r, c') \<Longrightarrow>
   journal c' = (if r = None then journal c @ [st] else journal c)"
  by (cases st)
    (auto simp: cursor_execute_def delete_file_def insert_file_def insert_tag_def Let_def
      split: list.splits option.splits if_splits prod.splits)

lemma execute_each_journal:
  "execute_each sts c = (r, c') \<Longrightarrow>
   \<exists>k\<le>length sts. journal c' = journal c @ take k sts \<and> (r = None \<longrightarrow> k = length sts)"
proof (induction sts arbitrary: c)
  case Nil
  then show ?case by simp
next
  case (Cons st sts)
  obtain r1 c1 where ex: "cursor_execute st c = (r1, c1)" by (cases "cursor_execute st c")
  show ?case
  proof (cases r1)
    case None
    with ex Cons.prems have run: "execute_each sts c1 = (r, c')" by simp
    from Cons.IH [OF run] obtain k where
      k: "k \<le> length sts" "journal c' = journal c1 @ take k sts" "r = None \<longrightarrow> k = length sts"
      by blast
    have "journal c1 = journal c @ [st]"
      using cursor_execute_journal [OF ex] None by simp
    with k have "Suc k \<le> length (st # sts) \<and> journal c' = journal c @ take (Suc k) (st # sts) \<and>
        (r = None \<longrightarrow> Suc k = length (st # sts))"
      by simp
    then show ?thesis by blast
  next
    case (Some e)
    with ex Cons.prems have "r = Some e" "c' = c1" by simp_all
    moreover have "journal c1 = journal c"
      using cursor_execute_journal [OF ex] Some by simp
    ultimately have "0 \<le> length (st # sts) \<and> journal c' = journal c @ take 0 (st # sts) \<and>
        (r = None \<longrightarrow> 0 = length (st # sts))"
      by simp
    then show ?thesis by blast
  qed
qed


section \<open>A healthy engine\<close>

lemma run_deletes:
  "pending c = [] \<Longrightarrow>
   \<exists>c'. execute_each (map DeleteFile ds) c = (None, c') \<and>
        files c' = (\<lambda>f. if f \<in> set ds then None else files c f) \<and>
        tags c' = filter (\<lambda>t. \<forall>f\<in>set ds. t ''path'' \<noteq> Some (PStr f)) (tags c) \<and>
        pending c' = [] \<and>
        journal c' = journal c @ map DeleteFile ds"
proof (induction ds arbitrary: c)
  case Nil
  then show ?case by simp
next
  case (Cons d ds)
  let ?c1 = "(delete_file d c)\<lparr>journal := journal c @ [DeleteFile d]\<rparr>"
  have ex: "cursor_execute (DeleteFile d) c = (None, ?c1)"
    using Cons.prems by (simp add: cursor_execute_healthy delete_file_def)
  have p1: "pending ?c1 = []"
    using Cons.prems by (simp add: delete_file_def)
  from Cons.IH [OF p1] obtain c' where
    run: "execute_each (map DeleteFile ds) ?c1 = (None, c')" and
    f: "files c' = (\<lambda>f. if f \<in> set ds then None else files ?c1 f)" and
    t: "tags c' = filter (\<lambda>t. \<forall>f\<in>set ds. t ''path'' \<noteq> Some (PStr f)) (tags ?c1)" and
    p: "pending c' = []" and
    j: "journal c' = journal ?c1 @ map DeleteFile ds"
    by blast
  have "execute_each (map DeleteFile (d # ds)) c = (None, c')"
    using ex run by simp
  moreover have "files c' = (\<lambda>f. if f \<in> set (d # ds) then None else files c f)"
    using f by (auto simp: delete_file_def)
  moreover have "tags c' = filter (\<lambda>t. \<forall>f\<in>set (d # ds). t ''path'' \<noteq> Some (PStr f)) (tags c)"
    using t by (simp add: delete_file_def conj_commute)
  moreover have "journal c' = journal c @ map DeleteFile (d # ds)"
    using j by simp
  ultimately show ?case using p by blast
qed

lemma run_file_inserts:
  "pending c = [] \<Longrightarrow> distinct (map fst es) \<Longrightarrow> \<forall>k\<in>set (map fst es). files c k = None \<Longrightarrow>
   \<exists>c'. execute_each (map InsertFile es) c = (None, c') \<and>
        files c' = files c ++ map_of es \<and>
        tags c' = tags c \<and>
        pending c' = [] \<and>
        journal c' = journal c @ map InsertFile es"
proof (induction es arbitrary: c)
  case Nil
  then show ?case by simp
next
  case (Cons e es)
  obtain f l m where e: "e = (f, l, m)" by (cases e)
  let ?c1 = "c\<lparr>files := (files c)(f \<mapsto> (l, m)), journal := journal c @ [InsertFile e]\<rparr>"
  have free: "files c f = None" using Cons.prems(3) e by simp
  have ex: "cursor_execute (InsertFile e) c = (None, ?c1)"
    using Cons.prems(1) free e by (simp add: cursor_execute_healthy insert_file_def)
  have p1: "pending ?c1 = []" using Cons.prems(1) by simp
  have d1: "distinct (map fst es)" using Cons.prems(2) by simp
  have fresh: "f \<notin> set (map fst es)" using Cons.prems(2) e by simp
  have n1: "\<forall>k\<in>set (map fst es). files ?c1 k = None"
    using Cons.prems(3) fresh by auto
  from Cons.IH [OF p1 d1 n1] obtain c' where
    run: "execute_each (map InsertFile es) ?c1 = (None, c')" and
    fl: "files c' = files ?c1 ++ map_of es" and
    t: "tags c' = tags ?c1" and
    p: "pending c' = []" and
    j: "journal c' = journal ?c1 @ map InsertFile es"
    by blast
  have "execute_each (map InsertFile (e # es)) c = (None, c')"
    using ex run by simp
  moreover have "map_of es f = None"
    using fresh by (simp add: map_of_eq_None_iff)
  then have "files c' = files c ++ map_of (e # es)"
    using fl e by (auto simp: fun_eq_iff map_add_def split: option.splits)
  moreover have "tags c' = tags c" using t by simp
  moreover have "journal c' = journal c @ map InsertFile (e # es)"
    using j by simp
  ultimately show ?case using p by blast
qed

lemma run_tag_inserts:
  "pending c = [] \<Longrightarrow>
   \<exists>c'. execute_each (map InsertTag rows) c = (None, c') \<and>
        files c' = files c \<and>
        tags c' = tags c @ rows \<and>
        pending c' = [] \<and>
        journal c' = journal c @ map InsertTag rows"
proof (induction rows arbitrary: c)
  case Nil
  then show ?case by simp
next
  case (Cons r rows)
  let ?c1 = "c\<lparr>tags := tags c @ [r], journal := journal c @ [InsertTag r]\<rparr>"
  have ex: "cursor_execute (InsertTag r) c = (None, ?c1)"
    using Cons.prems by (simp add: cursor_execute_healthy insert_tag_def)
  have p1: "pending ?c1 = []" using Cons.prems by simp
  from Cons.IH [OF p1] obtain c' where
    "execute_each (map InsertTag rows) ?c1 = (None, c')"
    "files c' = files ?c1" "tags c' = tags ?c1 @ rows" "pending c' = []"
    "journal c' = journal ?c1 @ map InsertTag rows"
    by blast
  then show ?case using ex by simp
qed

lemma run_optimize:
  "pending c = [] \<Longrightarrow>
   execute_each [PragmaOptimize] c = (None, c\<lparr>journal := journal c @ [PragmaOptimize]\<rparr>)"
  by (simp add: cursor_execute_healthy)

lemma keys_m1: "map fst (m1 new) = keys new"
  by (induction new) (auto simp: keys_def m1_def)

lemma set_py_union: "set (py_union xs ys) = set xs \<union> set ys"
  by (simp add: py_union_def)

lemma run_reconciliate_stmts:
  assumes "pending c = []" and "distinct (keys new)"
  shows "\<exists>c'. execute_each (reconciliate_stmts dead new) c = (None, c') \<and>
        files c' = reconciled_files dead new (files c) \<and>
        tags c' = reconciled_tags dead new (tags c) \<and>
        pending c' = [] \<and>
        journal c' = journal c @ reconciliate_stmts dead new"
proof -
  let ?ds = "py_union dead (keys new)"
  from run_deletes [OF assms(1), of ?ds] obtain c1 where
    r1: "execute_each (map DeleteFile ?ds) c = (None, c1)" and
    f1: "files c1 = (\<lambda>f. if f \<in> set ?ds then None else files c f)" and
    t1: "tags c1 = filter (\<lambda>t. \<forall>f\<in>set ?ds. t ''path'' \<noteq> Some (PStr f)) (tags c)" and
    p1: "pending c1 = []" and
    j1: "journal c1 = journal c @ map DeleteFile ?ds"
    by blast
  have d: "distinct (map fst (m1 new))"
    using assms(2) by (simp add: keys_m1)
  have n: "\<forall>k\<in>set (map fst (m1 new)). files c1 k = None"
    using f1 by (simp add: keys_m1 set_py_union)
  from run_file_inserts [OF p1 d n] obtain c2 where
    r2: "execute_each (map InsertFile (m1 new)) c1 = (None, c2)" and
    f2: "files c2 = files c1 ++ map_of (m1 new)" and
    t2: "tags c2 = tags c1" and
    p2: "pending c2 = []" and
    j2: "journal c2 = journal c1 @ map InsertFile (m1 new)"
    by blast
  from run_tag_inserts [OF p2, of "m2 new"] obtain c3 where
    r3: "execute_each (map InsertTag (m2 new)) c2 = (None, c3)" and
    f3: "files c3 = files c2" and
    t3: "tags c3 = tags c2 @ m2 new" and
    p3: "pending c3 = []" and
    j3: "journal c3 = journal c2 @ map InsertTag (m2 new)"
    by blast
  let ?c4 = "c3\<lparr>journal := journal c3 @ [PragmaOptimize]\<rparr>"
  have r4: "execute_each [PragmaOptimize] c3 = (None, ?c4)"
    using p3 by (rule run_optimize)
  have "execute_each (reconciliate_stmts dead new) c = (None, ?c4)"
    unfolding reconciliate_stmts_def
    using r1 r2 r3 r4 by (simp only: execute_each_append_None)
  moreover have "files ?c4 = reconciled_files dead new (files c)"
    using f1 f2 f3 by (simp add: reconciled_files_def set_py_union)
  moreover have "tags ?c4 = reconciled_tags dead new (tags c)"
    using t1 t2 t3 by (simp add: reconciled_tags_def set_py_union)
  moreover have "pending ?c4 = []" using p3 by simp
  moreover have "journal ?c4 = journal c @ reconciliate_stmts dead new"
    using j1 j2 j3 by (simp add: reconciliate_stmts_def)
  ultimately show ?thesis by blast
qed

lemma reconciliate_unfold:
  "reconciliate dead new s =
     (case execute_each (reconciliate_stmts dead new) ((conn s)\<lparr>journal := []\<rparr>) of
        (r, c') \<Rightarrow>
          (if r = Some OperationalError then None else r,
           s\<lparr>conn := c', units := units s @ [journal c']\<rparr>))"
  by (auto simp: reconciliate_def submit_def reconciliate_cont_stmts suppress_def
      split: prod.splits option.splits db_error.splits)

lemma reconciliate_healthy:
  assumes "pending (conn s) = []" and "distinct (keys new)"
  shows "\<exists>s'. reconciliate dead new s = (None, s') \<and>
        files (conn s') = reconciled_files dead new (files (conn s)) \<and>
        tags (conn s') = reconciled_tags dead new (tags (conn s)) \<and>
        pending (conn s') = [] \<and>
        units s' = units s @ [reconciliate_stmts dead new]"
proof -
  let ?c = "(conn s)\<lparr>journal := []\<rparr>"
  have "pending ?c = []" using assms(1) by simp
  from run_reconciliate_stmts [OF this assms(2), of dead] obtain c' where
    "execute_each (reconciliate_stmts dead new) ?c = (None, c')"
    "files c' = reconciled_files dead new (files ?c)"
    "tags c' = reconciled_tags dead new (tags ?c)"
    "pending c' = []"
    "journal c' = journal ?c @ reconciliate_stmts dead new"
    by blast
  then show ?thesis by (simp add: reconciliate_unfold)
qed


section \<open>Reconciliation\<close>

text \<open>
  C1. Every call of \<open>reconciliate dead new\<close> runs as one unit of work. The statements
  that run in it are the deletions of the file entries (each with its tags) of the
  union of \<open>dead\<close> and the keys of \<open>new\<close>, then one file insertion for each item of
  \<open>new\<close>, then the insertion of every tag of every file of \<open>new\<close>, then the
  optimization pass, in this order: whatever the engine does, the statements that ran
  are a prefix of this sequence, and they are the whole sequence when the engine raises
  nothing.
\<close>

theorem reconciliate_order:
  "reconciliate_stmts dead new =
     map DeleteFile (py_union dead (keys new)) @
     map InsertFile (m1 new) @ map InsertTag (m2 new) @ [PragmaOptimize] \<and>
   set (py_union dead (keys new)) = set dead \<union> fst ` set new \<and>
   length (m1 new) = length new \<and>
   (\<exists>u. units (snd (reconciliate dead new s)) = units s @ [u] \<and>
        prefix u (reconciliate_stmts dead new) \<and>
        (pending (conn s) = [] \<and> distinct (keys new) \<longrightarrow>
           u = reconciliate_stmts dead new \<and> fst (reconciliate dead new s) = None))"
proof -
  obtain r c' where run:
    "execute_each (reconciliate_stmts dead new) ((conn s)\<lparr>journal := []\<rparr>) = (r, c')"
    by (cases "execute_each (reconciliate_stmts dead new) ((conn s)\<lparr>journal := []\<rparr>)")
  from execute_each_journal [OF run] obtain k where
    k: "journal c' = take k (reconciliate_stmts dead new)"
    by auto
  have u: "units (snd (reconciliate dead new s)) = units s @ [journal c']"
    using run by (simp add: reconciliate_unfold)
  have pre: "prefix (journal c') (reconciliate_stmts dead new)"
    unfolding k by (rule take_is_prefix)
  have full: "journal c' = reconciliate_stmts dead new \<and> fst (reconciliate dead new s) = None"
    if "pending (conn s) = []" and "distinct (keys new)"
    using reconciliate_healthy [OF that, of dead] u by auto
  have "set (py_union dead (keys new)) = set dead \<union> fst ` set new"
    by (simp add: set_py_union keys_def)
  moreover have "length (m1 new) = length new"
    by (simp add: m1_def)
  ultimately show ?thesis
    using u pre full unfolding reconciliate_stmts_def by blast
qed

theorem reconciliate_order_witness:
  "pending (conn db0) = [] \<and> distinct (keys new_a) \<and>
   units (snd (reconciliate [''gone.py''] new_a db0)) =
     [[DeleteFile ''gone.py'', DeleteFile ''a.py'', InsertFile (''a.py'', ''python'', 2),
       InsertTag (NIL_TAG ++ tag_f), PragmaOptimize]]"
proof -
  have h: "pending (conn db0) = [] \<and> distinct (keys new_a)"
    by (simp add: db0_def new_a_def keys_def)
  have "reconciliate_stmts [''gone.py''] new_a =
      [DeleteFile ''gone.py'', DeleteFile ''a.py'', InsertFile (''a.py'', ''python'', 2),
       InsertTag (NIL_TAG ++ tag_f), PragmaOptimize]"
    by (simp add: reconciliate_stmts_def new_a_def keys_def py_union_def m1_def m2_def)
  moreover have "units db0 = []"
    by (simp add: db0_def)
  ultimately show ?thesis
    using h reconciliate_order [of "[''gone.py'']" new_a db0] by auto
qed



section \<open>An engine that fails\<close>




















section \<open>Replacing and repeating\<close>

lemma map_of_m1_None: "map_of (m1 new) f = None \<longleftrightarrow> f \<notin> set (keys new)"
  by (simp add: map_of_eq_None_iff keys_m1 [symmetric])

lemma reconciled_files_twice:
  "reconciled_files dead new (reconciled_files dead new fs) = reconciled_files dead new fs"
proof (rule ext)
  fix f
  show "reconciled_files dead new (reconciled_files dead new fs) f = reconciled_files dead new fs f"
  proof (cases "map_of (m1 new) f")
    case None
    then have "f \<notin> set (keys new)" by (simp add: map_of_m1_None)
    with None show ?thesis by (simp add: reconciled_files_def map_add_def)
  next
    case (Some v)
    then show ?thesis by (simp add: reconciled_files_def map_add_def)
  qed
qed

lemma reconciled_tags_twice:
  assumes "\<forall>row\<in>set (m2 new). \<exists>f\<in>set (keys new). row ''path'' = Some (PStr f)"
  shows "reconciled_tags dead new (reconciled_tags dead new ts) = reconciled_tags dead new ts"
proof -
  have "filter (\<lambda>t. \<forall>f\<in>set dead \<union> set (keys new). t ''path'' \<noteq> Some (PStr f)) (m2 new) = []"
    using assms by (auto simp: filter_empty_conv)
  then show ?thesis
    by (simp add: reconciled_tags_def)
qed

text \<open>
  C2. After a reconciliation with no dead file, of the one file \<open>F\<close> with the tags
  \<open>T2\<close>, on an engine that raises nothing: when every tag of \<open>T2\<close>, filled from the
  nil tag, has the path \<open>F\<close>, the tags of \<open>F\<close> are exactly the filled tags of \<open>T2\<close>,
  whatever tags \<open>F\<close> had before, and the file entry of \<open>F\<close> is the new one.
\<close>

theorem reconciliate_replaces:
  assumes "pending (conn s) = []"
    and "\<forall>t\<in>set T2. (NIL_TAG ++ t) ''path'' = Some (PStr F)"
  shows "fst (reconciliate [] [(F, lang, mtime, T2)] s) = None \<and>
     tags_of F (conn (snd (reconciliate [] [(F, lang, mtime, T2)] s))) =
       map (\<lambda>t. NIL_TAG ++ t) T2 \<and>
     files (conn (snd (reconciliate [] [(F, lang, mtime, T2)] s))) F = Some (lang, mtime) \<and>
     (\<forall>t\<in>set (tags_of F (conn s)). t \<notin> set (map (\<lambda>t. NIL_TAG ++ t) T2) \<longrightarrow>
        t \<notin> set (tags_of F (conn (snd (reconciliate [] [(F, lang, mtime, T2)] s)))))"
proof -
  let ?new = "[(F, lang, mtime, T2)]"
  have d: "distinct (keys ?new)" by (simp add: keys_def)
  from reconciliate_healthy [OF assms(1) d, of "[]"] obtain s' where
    r: "reconciliate [] ?new s = (None, s')" and
    f: "files (conn s') = reconciled_files [] ?new (files (conn s))" and
    t: "tags (conn s') = reconciled_tags [] ?new (tags (conn s))"
    by blast
  have m2: "m2 ?new = map (\<lambda>t. NIL_TAG ++ t) T2"
    by (simp add: m2_def)
  have "filter (\<lambda>t. t ''path'' = Some (PStr F)) (map (\<lambda>t. NIL_TAG ++ t) T2) =
      map (\<lambda>t. NIL_TAG ++ t) T2"
    using assms(2) by (simp add: filter_id_conv)
  then have tg: "tags_of F (conn s') = map (\<lambda>t. NIL_TAG ++ t) T2"
    by (simp add: tags_of_def t reconciled_tags_def m2 keys_def filter_empty_conv)
  have fl: "files (conn s') F = Some (lang, mtime)"
    by (simp add: f reconciled_files_def m1_def)
  show ?thesis
    using r tg fl by simp
qed

theorem reconciliate_replaces_witness:
  "pending (conn db0) = [] \<and>
   (NIL_TAG ++ tag_f) ''path'' = Some (PStr ''a.py'') \<and>
   tags_of ''a.py'' (conn db0) = [NIL_TAG ++ tag_old] \<and>
   tags_of ''a.py'' (conn (snd (reconciliate [] [(''a.py'', ''python'', 2, [tag_f])] db0))) =
     [NIL_TAG ++ tag_f]"
proof -
  have p: "pending (conn db0) = []"
    by (simp add: db0_def)
  have h: "\<forall>t\<in>set [tag_f]. (NIL_TAG ++ t) ''path'' = Some (PStr ''a.py'')"
    by (simp add: tag_f_def)
  have "tags_of ''a.py'' (conn db0) = [NIL_TAG ++ tag_old]"
    by (simp add: tags_of_def db0_def tag_old_def)
  then show ?thesis
    using p h reconciliate_replaces [OF p h, of "''python''" 2] by simp
qed

text \<open>
  The claim as it stands, for every tag set: a tag listed under \<^verbatim>\<open>a.py\<close> that names
  \<^verbatim>\<open>b.py\<close> as its path is stored as a tag of \<^verbatim>\<open>b.py\<close> (\<open>m2\<close> drops the key), so
  the tags of \<^verbatim>\<open>a.py\<close> are not the tags given for it.
\<close>

theorem reconciliate_replaces_counterexample:
  "\<not> (fst (reconciliate [] new_b db0) = None \<longrightarrow>
      tags_of ''a.py'' (conn (snd (reconciliate [] new_b db0))) = map (\<lambda>t. NIL_TAG ++ t) [tag_g])"
proof -
  have p: "pending (conn db0) = []"
    by (simp add: db0_def)
  have d: "distinct (keys new_b)"
    by (simp add: new_b_def keys_def)
  from reconciliate_healthy [OF p d, of "[]"] obtain s' where
    r: "reconciliate [] new_b db0 = (None, s')" and
    t: "tags (conn s') = reconciled_tags [] new_b (tags (conn db0))"
    by blast
  have "tags_of ''a.py'' (conn s') = []"
    by (simp add: tags_of_def t reconciled_tags_def new_b_def keys_def m2_def db0_def
        tag_old_def tag_g_def)
  then show ?thesis
    using r by simp
qed

text \<open>
  C3. On an engine that raises nothing, for a tag mapping \<open>S\<close> in which every tag,
  filled from the nil tag, has one of the filenames of \<open>S\<close> as its path: a second
  reconciliation with no dead file and the same \<open>S\<close>, right after the first, leaves
  the file entries and the tags as the first left them.
\<close>

theorem reconciliate_idempotent:
  assumes "pending (conn s) = []"
    and "distinct (keys S)"
    and "\<forall>row\<in>set (m2 S). \<exists>f\<in>set (keys S). row ''path'' = Some (PStr f)"
  shows "fst (reconciliate [] S s) = None \<and>
     fst (reconciliate [] S (snd (reconciliate [] S s))) = None \<and>
     files (conn (snd (reconciliate [] S (snd (reconciliate [] S s))))) =
       files (conn (snd (reconciliate [] S s))) \<and>
     tags (conn (snd (reconciliate [] S (snd (reconciliate [] S s))))) =
       tags (conn (snd (reconciliate [] S s)))"
proof -
  from reconciliate_healthy [OF assms(1,2), of "[]"] obtain s1 where
    r1: "reconciliate [] S s = (None, s1)" and
    f1: "files (conn s1) = reconciled_files [] S (files (conn s))" and
    t1: "tags (conn s1) = reconciled_tags [] S (tags (conn s))" and
    p1: "pending (conn s1) = []"
    by blast
  from reconciliate_healthy [OF p1 assms(2), of "[]"] obtain s2 where
    r2: "reconciliate [] S s1 = (None, s2)" and
    f2: "files (conn s2) = reconciled_files [] S (files (conn s1))" and
    t2: "tags (conn s2) = reconciled_tags [] S (tags (conn s1))"
    by blast
  have "files (conn s2) = files (conn s1)"
    unfolding f2 f1 by (rule reconciled_files_twice)
  moreover have "tags (conn s2) = tags (conn s1)"
    unfolding t2 t1 using assms(3) by (rule reconciled_tags_twice)
  ultimately show ?thesis
    using r1 r2 by simp
qed

theorem reconciliate_idempotent_witness:
  "pending (conn db0) = [] \<and> distinct (keys new_a) \<and>
   m2 new_a = [NIL_TAG ++ tag_f] \<and> keys new_a = [''a.py''] \<and>
   (NIL_TAG ++ tag_f) ''path'' = Some (PStr ''a.py'') \<and>
   tags (conn (snd (reconciliate [] new_a db0))) = [NIL_TAG ++ tag_f] \<and>
   tags (conn (snd (reconciliate [] new_a (snd (reconciliate [] new_a db0))))) = [NIL_TAG ++ tag_f]"
proof -
  have p: "pending (conn db0) = []"
    by (simp add: db0_def)
  have d: "distinct (keys new_a)"
    by (simp add: new_a_def keys_def)
  have h: "\<forall>row\<in>set (m2 new_a). \<exists>f\<in>set (keys new_a). row ''path'' = Some (PStr f)"
    by (simp add: new_a_def m2_def keys_def tag_f_def)
  from reconciliate_healthy [OF p d, of "[]"] obtain s' where
    r: "reconciliate [] new_a db0 = (None, s')" and
    t: "tags (conn s') = reconciled_tags [] new_a (tags (conn db0))"
    by blast
  have "tags (conn s') = [NIL_TAG ++ tag_f]"
    by (simp add: t reconciled_tags_def new_a_def keys_def m2_def db0_def tag_old_def)
  moreover have "m2 new_a = [NIL_TAG ++ tag_f]" "keys new_a = [''a.py'']"
    "(NIL_TAG ++ tag_f) ''path'' = Some (PStr ''a.py'')"
    by (simp_all add: new_a_def m2_def keys_def tag_f_def)
  ultimately show ?thesis
    using p d r reconciliate_idempotent [OF p d h] by simp
qed

text \<open>
  The claim as it stands, for every tag mapping: a tag listed under \<^verbatim>\<open>a.py\<close> that
  names the stored file \<^verbatim>\<open>b.py\<close> as its path is not deleted with \<^verbatim>\<open>a.py\<close>, and
  the second reconciliation inserts it a second time.
\<close>

theorem reconciliate_idempotent_counterexample:
  "\<not> (tags (conn (snd (reconciliate [] new_b (snd (reconciliate [] new_b db0))))) =
      tags (conn (snd (reconciliate [] new_b db0))))"
proof -
  have p: "pending (conn db0) = []"
    by (simp add: db0_def)
  have d: "distinct (keys new_b)"
    by (simp add: new_b_def keys_def)
  from reconciliate_healthy [OF p d, of "[]"] obtain s1 where
    r1: "reconciliate [] new_b db0 = (None, s1)" and
    t1: "tags (conn s1) = reconciled_tags [] new_b (tags (conn db0))" and
    p1: "pending (conn s1) = []"
    by blast
  from reconciliate_healthy [OF p1 d, of "[]"] obtain s2 where
    r2: "reconciliate [] new_b s1 = (None, s2)" and
    t2: "tags (conn s2) = reconciled_tags [] new_b (tags (conn s1))"
    by blast
  have l1: "length (tags (conn s1)) = 1"
    by (simp add: t1 reconciled_tags_def new_b_def keys_def m2_def db0_def tag_old_def)
  have "length (tags (conn s2)) = 2"
    by (simp add: t2 t1 reconciled_tags_def new_b_def keys_def m2_def db0_def tag_old_def
        tag_g_def)
  with l1 have "tags (conn s2) \<noteq> tags (conn s1)"
    by auto
  then show ?thesis
    using r1 r2 by simp
qed

section \<open>The limit of a selection\<close>

lemma length_sql_limit: "0 \<le> n \<Longrightarrow> int (length (sql_limit n rows)) \<le> n"
  by (simp add: sql_limit_def)

lemma select_rows:
  "fst (select env opts filename line_num word symb limitless s) = Inr rows \<Longrightarrow>
   rows = [] \<or>
   (\<exists>c. rows = select_tags env (select_query env opts filename line_num word symb limitless) c)"
  by (auto simp: select_def submit_def select_cont_def Let_def
      split: prod.splits sum.splits db_error.splits option.splits)

lemma select_healthy:
  "pending (conn s) = [] \<Longrightarrow>
   fst (select env opts filename line_num word symb limitless s) =
     Inr (select_tags env (select_query env opts filename line_num word symb limitless) (conn s))"
  by (simp add: select_def submit_def select_cont_def Let_def cursor_execute_def select_tags_def)

text \<open>
  C6. With a zero \<open>limitless\<close> flag the limit of the query is \<open>max_results opts\<close>, and
  when that is not negative \<open>select\<close> returns at most as many tags, however many
  match. With a nonzero flag the limit of the query is the constant \<open>BIGGEST_INT\<close>,
  which bounds the result in the same way.
\<close>

theorem select_limit:
  "(limitless = 0 \<longrightarrow>
      q_limit (select_query env opts filename line_num word symb limitless) = max_results opts \<and>
      (0 \<le> max_results opts \<longrightarrow>
        (\<forall>rows. fst (select env opts filename line_num word symb limitless s) = Inr rows \<longrightarrow>
           int (length rows) \<le> max_results opts))) \<and>
   (limitless \<noteq> 0 \<longrightarrow>
      q_limit (select_query env opts filename line_num word symb limitless) = BIGGEST_INT env \<and>
      (0 \<le> BIGGEST_INT env \<longrightarrow>
        (\<forall>rows. fst (select env opts filename line_num word symb limitless s) = Inr rows \<longrightarrow>
           int (length rows) \<le> BIGGEST_INT env)))"
proof -
  let ?ps = "select_query env opts filename line_num word symb limitless"
  have bound: "int (length rows) \<le> q_limit ?ps"
    if "0 \<le> q_limit ?ps"
      and "fst (select env opts filename line_num word symb limitless s) = Inr rows" for rows
    using select_rows [OF that(2)] that(1)
    by (auto simp: select_tags_def length_sql_limit)
  have l0: "q_limit ?ps = max_results opts" if "limitless = 0"
    using that by (simp add: select_query_def)
  have l1: "q_limit ?ps = BIGGEST_INT env" if "limitless \<noteq> 0"
    using that by (simp add: select_query_def)
  show ?thesis
    using bound l0 l1 by metis
qed

theorem select_limit_witness:
  "(0::int) \<le> max_results opts_none \<and>
   matches env0 (select_query env0 opts_none ''a.py'' 0 ''o'' ''o'' 0) (files (conn db0)) (tags (conn db0)) =
     [NIL_TAG ++ tag_old] \<and>
   fst (select env0 opts_none ''a.py'' 0 ''o'' ''o'' 0 db0) = Inr [] \<and>
   q_limit (select_query env0 opts0 ''a.py'' 0 ''o'' ''o'' 1) = 2 ^ 63 - 1 \<and>
   fst (select env0 opts0 ''a.py'' 0 ''o'' ''o'' 1 db0) = Inr [NIL_TAG ++ tag_old]"
proof -
  have p: "pending (conn db0) = []"
    by (simp add: db0_def)
  have a: "fst (select env0 opts_none ''a.py'' 0 ''o'' ''o'' 0 db0) = Inr []"
    using select_limit [of 0 env0 opts_none "''a.py''" 0 "''o''" "''o''" db0]
    by (simp add: select_healthy [OF p] opts_none_def opts0_def)
  have b: "fst (select env0 opts0 ''a.py'' 0 ''o'' ''o'' 1 db0) = Inr [NIL_TAG ++ tag_old]"
    unfolding select_healthy [OF p]
    by (simp add: select_tags_def select_query_def sql_limit_def env0_def db0_def)
  show ?thesis
    using a b select_limit [of 1 env0 opts0 "''a.py''" 0 "''o''" "''o''" db0]
    by (simp add: opts_none_def opts0_def env0_def db0_def)
qed

text \<open>
  The claim as it stands, for every \<open>max_results\<close>: with \<open>max_results = -1\<close> the limit
  of the query is negative and the one matching tag is returned.
\<close>

theorem select_limit_counterexample:
  "\<not> (\<forall>rows. fst (select env0 opts_neg ''a.py'' 0 ''o'' ''o'' 0 db0) = Inr rows \<longrightarrow>
        int (length rows) \<le> max_results opts_neg)"
proof -
  have p: "pending (conn db0) = []"
    by (simp add: db0_def)
  have "fst (select env0 opts_neg ''a.py'' 0 ''o'' ''o'' 0 db0) = Inr [NIL_TAG ++ tag_old]"
    unfolding select_healthy [OF p]
    by (simp add: select_tags_def select_query_def sql_limit_def env0_def db0_def opts_neg_def
        opts0_def)
  moreover have "\<not> int (length [NIL_TAG ++ tag_old]) \<le> max_results opts_neg"
    by (simp add: opts_neg_def opts0_def)
  ultimately show ?thesis by blast
qed

section \<open>The name of the database file\<close>

lemma rfind_dot_None: "CHR ''.'' \<notin> set name \<Longrightarrow> rfind_dot name = None"
proof -
  assume a: "CHR ''.'' \<notin> set name"
  have "name ! i \<noteq> CHR ''.''" if "i < length name" for i
    using a nth_mem [OF that] by metis
  then have "filter (\<lambda>i. name ! i = CHR ''.'') (rev [0..<length name]) = []"
    by (simp add: filter_empty_conv)
  then show ?thesis by (simp add: rfind_dot_def)
qed

lemma with_suffix_no_dot: "CHR ''.'' \<notin> set name \<Longrightarrow> with_suffix name sfx = name @ sfx"
  by (simp add: with_suffix_def suffix_of_def rfind_dot_None)

lemma hexdigest_no_dot: "is_hexdigest d \<Longrightarrow> CHR ''.'' \<notin> set (d @ ''-'' @ SCHEMA)"
  by (auto simp: is_hexdigest_def SCHEMA_def)

lemma db_file_hex:
  "is_hexdigest (md5_hexdigest lib (encode lib (normcase lib cwd))) \<Longrightarrow>
   db_file lib db_dir cwd =
     db_dir @ [md5_hexdigest lib (encode lib (normcase lib cwd)) @ ''-v5.sqlite3'']"
  using with_suffix_no_dot [OF hexdigest_no_dot, of "md5_hexdigest lib (encode lib (normcase lib cwd))"]
  by (simp add: db_file_def db_name_def SCHEMA_def)

text \<open>
  C5. Two working directories that \<open>normcase\<close> makes equal have the same database
  file. With a digest of 32 hexadecimal digits the file is, under \<open>db_dir\<close>, the digest
  of the encoded, normalised path, followed by \<^verbatim>\<open>-v5\<close> and the suffix
  \<^verbatim>\<open>.sqlite3\<close>; so two working directories have different database files exactly
  when their digests differ.
\<close>

theorem db_file_identity:
  "(normcase lib p1 = normcase lib p2 \<longrightarrow> db_file lib db_dir p1 = db_file lib db_dir p2) \<and>
   (is_hexdigest (md5_hexdigest lib (encode lib (normcase lib p1))) \<longrightarrow>
      db_file lib db_dir p1 =
        db_dir @ [md5_hexdigest lib (encode lib (normcase lib p1)) @ ''-'' @ SCHEMA @ ''.sqlite3'']) \<and>
   (is_hexdigest (md5_hexdigest lib (encode lib (normcase lib p1))) \<and>
    is_hexdigest (md5_hexdigest lib (encode lib (normcase lib p2))) \<longrightarrow>
      (db_file lib db_dir p1 = db_file lib db_dir p2 \<longleftrightarrow>
       md5_hexdigest lib (encode lib (normcase lib p1)) =
       md5_hexdigest lib (encode lib (normcase lib p2))))"
proof -
  have "db_file lib db_dir p1 = db_file lib db_dir p2" if "normcase lib p1 = normcase lib p2"
    using that by (simp add: db_file_def db_name_def)
  moreover have "db_file lib db_dir p1 =
      db_dir @ [md5_hexdigest lib (encode lib (normcase lib p1)) @ ''-'' @ SCHEMA @ ''.sqlite3'']"
    if "is_hexdigest (md5_hexdigest lib (encode lib (normcase lib p1)))"
    using db_file_hex [OF that] by (simp add: SCHEMA_def)
  moreover have "db_file lib db_dir p1 = db_file lib db_dir p2 \<longleftrightarrow>
       md5_hexdigest lib (encode lib (normcase lib p1)) =
       md5_hexdigest lib (encode lib (normcase lib p2))"
    if "is_hexdigest (md5_hexdigest lib (encode lib (normcase lib p1)))"
      and "is_hexdigest (md5_hexdigest lib (encode lib (normcase lib p2)))"
    using db_file_hex [OF that(1)] db_file_hex [OF that(2)] by simp
  ultimately show ?thesis by blast
qed

theorem db_file_identity_witness:
  "normcase lib0 ''/P'' = normcase lib0 ''/p'' \<and>
   db_file lib0 [''vars'', ''clients'', ''tags''] ''/P'' =
     db_file lib0 [''vars'', ''clients'', ''tags''] ''/p'' \<and>
   is_hexdigest (md5_hexdigest lib0 (encode lib0 (normcase lib0 ''/P''))) \<and>
   db_file lib0 [''vars'', ''clients'', ''tags''] ''/P'' =
     [''vars'', ''clients'', ''tags'', ''5cf1a64bfd55ed5e7bc5b4a9a0b3e010-v5.sqlite3''] \<and>
   is_hexdigest (md5_hexdigest lib0 (encode lib0 (normcase lib0 ''/q''))) \<and>
   db_file lib0 [''vars'', ''clients'', ''tags''] ''/P'' \<noteq>
     db_file lib0 [''vars'', ''clients'', ''tags''] ''/q''"
proof -
  have n: "normcase lib0 ''/P'' = normcase lib0 ''/p''"
    by (simp add: lib0_def)
  have h1: "is_hexdigest (md5_hexdigest lib0 (encode lib0 (normcase lib0 ''/P'')))"
    by (simp add: lib0_def is_hexdigest_def)
  have h2: "is_hexdigest (md5_hexdigest lib0 (encode lib0 (normcase lib0 ''/q'')))"
    by (simp add: lib0_def is_hexdigest_def)
  have d: "md5_hexdigest lib0 (encode lib0 (normcase lib0 ''/P'')) = ''5cf1a64bfd55ed5e7bc5b4a9a0b3e010''"
    "md5_hexdigest lib0 (encode lib0 (normcase lib0 ''/q'')) = ''d41d8cd98f00b204e9800998ecf8427e''"
    by (simp_all add: lib0_def)
  from n db_file_identity [of lib0 "''/P''" "''/p''" "[''vars'', ''clients'', ''tags'']"]
  have e1: "db_file lib0 [''vars'', ''clients'', ''tags''] ''/P'' =
      db_file lib0 [''vars'', ''clients'', ''tags''] ''/p''"
    by blast
  from h1 db_file_identity [of lib0 "''/P''" "''/q''" "[''vars'', ''clients'', ''tags'']"]
  have e2: "db_file lib0 [''vars'', ''clients'', ''tags''] ''/P'' =
      [''vars'', ''clients'', ''tags''] @
      [md5_hexdigest lib0 (encode lib0 (normcase lib0 ''/P'')) @ ''-'' @ SCHEMA @ ''.sqlite3'']"
    by blast
  from h1 h2 db_file_identity [of lib0 "''/P''" "''/q''" "[''vars'', ''clients'', ''tags'']"]
  have e3: "db_file lib0 [''vars'', ''clients'', ''tags''] ''/P'' =
      db_file lib0 [''vars'', ''clients'', ''tags''] ''/q'' \<longleftrightarrow>
      md5_hexdigest lib0 (encode lib0 (normcase lib0 ''/P'')) =
      md5_hexdigest lib0 (encode lib0 (normcase lib0 ''/q''))"
    by blast
  have "db_file lib0 [''vars'', ''clients'', ''tags''] ''/P'' =
      [''vars'', ''clients'', ''tags'', ''5cf1a64bfd55ed5e7bc5b4a9a0b3e010-v5.sqlite3'']"
    unfolding e2 d by (simp add: SCHEMA_def)
  moreover have "db_file lib0 [''vars'', ''clients'', ''tags''] ''/P'' \<noteq>
      db_file lib0 [''vars'', ''clients'', ''tags''] ''/q''"
    unfolding e3 d by simp
  ultimately show ?thesis
    using n h1 h2 e1 by blast
qed

section \<open>The current request of the worker\<close>




















section \<open>The completions of the worker\<close>

lemma work_Inr:
  "work lib options c decoded = Inr cs \<Longrightarrow>
   \<exists>resp. decoded = Inr resp \<and>
     cs = map (make_completion lib options)
            (filter (accepts lib (lower lib (py_or (words c) (syms c)))) resp)"
  by (auto simp: work_def Let_def split: sum.splits)

lemma make_completion_edit:
  "primary_edit (make_completion lib options p) = \<lparr>new_text = payload_text p\<rparr>"
  by (simp add: make_completion_def Let_def)

text \<open>
  C10. Every completion that \<open>work\<close> yields is made from a payload of the response
  whose text, lower-cased, starts with the lower-cased query token (\<open>words\<close>, or
  \<open>syms\<close> when \<open>words\<close> is empty) and is longer than that lower-cased token; so its
  text is never the lower-cased token, and never the token itself when lower-casing
  does not shorten the token.
\<close>

theorem work_yields:
  assumes "work lib options c decoded = Inr cs" and "cmp \<in> set cs"
  shows "\<exists>p resp. decoded = Inr resp \<and> p \<in> set resp \<and>
     cmp = make_completion lib options p \<and>
     primary_edit cmp = \<lparr>new_text = payload_text p\<rparr> \<and>
     prefix (lower lib (if words c = [] then syms c else words c)) (lower lib (payload_text p)) \<and>
     length (lower lib (if words c = [] then syms c else words c)) < length (payload_text p) \<and>
     payload_text p \<noteq> lower lib (if words c = [] then syms c else words c) \<and>
     (length (if words c = [] then syms c else words c) \<le>
        length (lower lib (if words c = [] then syms c else words c)) \<longrightarrow>
      payload_text p \<noteq> (if words c = [] then syms c else words c))"
proof -
  let ?match = "lower lib (if words c = [] then syms c else words c)"
  from work_Inr [OF assms(1)] obtain resp where
    d: "decoded = Inr resp" and
    cs: "cs = map (make_completion lib options) (filter (accepts lib ?match) resp)"
    by (auto simp: py_or_def)
  from assms(2) cs obtain p where
    p: "p \<in> set resp" "accepts lib ?match p" "cmp = make_completion lib options p"
    by auto
  have a: "prefix ?match (lower lib (payload_text p))" "length ?match < length (payload_text p)"
    using p(2) by (simp_all add: accepts_def startswith_def)
  then have "payload_text p \<noteq> ?match"
    by auto
  moreover have "payload_text p \<noteq> (if words c = [] then syms c else words c)"
    if "length (if words c = [] then syms c else words c) \<le> length ?match"
    using that a(2) by auto
  ultimately show ?thesis
    using d p(1,3) a make_completion_edit [of lib options p] by blast
qed

theorem work_yields_witness:
  "work lib1 ts_options ctx1 (Inr resp1) =
     Inr [make_completion lib1 ts_options \<lparr>payload_text = ''Foo''\<rparr>,
          make_completion lib1 ts_options \<lparr>payload_text = ''FOX''\<rparr>] \<and>
   make_completion lib1 ts_options \<lparr>payload_text = ''FOX''\<rparr> \<in>
     set [make_completion lib1 ts_options \<lparr>payload_text = ''Foo''\<rparr>,
          make_completion lib1 ts_options \<lparr>payload_text = ''FOX''\<rparr>] \<and>
   new_text (primary_edit (make_completion lib1 ts_options \<lparr>payload_text = ''FOX''\<rparr>)) = ''FOX'' \<and>
   lower lib1 (words ctx1) = ''fo'' \<and>
   prefix ''fo'' (lower lib1 ''FOX'') \<and>
   length ''fo'' < length ''FOX''"
proof -
  have lw: "ascii_lower ''Fo'' = ''fo''" "ascii_lower ''Foo'' = ''foo''"
    "ascii_lower ''fo'' = ''fo''" "ascii_lower ''bar'' = ''bar''" "ascii_lower ''FOX'' = ''fox''"
    by (simp_all add: ascii_lower_def)
  have w: "work lib1 ts_options ctx1 (Inr resp1) =
     Inr [make_completion lib1 ts_options \<lparr>payload_text = ''Foo''\<rparr>,
          make_completion lib1 ts_options \<lparr>payload_text = ''FOX''\<rparr>]"
    by (simp add: work_def Let_def py_or_def ctx1_def resp1_def accepts_def startswith_def
        lib1_def lw)
  have m: "make_completion lib1 ts_options \<lparr>payload_text = ''FOX''\<rparr> \<in>
     set [make_completion lib1 ts_options \<lparr>payload_text = ''Foo''\<rparr>,
          make_completion lib1 ts_options \<lparr>payload_text = ''FOX''\<rparr>]"
    by simp
  have "new_text (primary_edit (make_completion lib1 ts_options \<lparr>payload_text = ''FOX''\<rparr>)) = ''FOX''"
    by (simp add: make_completion_edit)
  moreover have "lower lib1 (words ctx1) = ''fo''" "prefix ''fo'' (lower lib1 ''FOX'')"
    by (simp_all add: lib1_def ctx1_def lw)
  ultimately show ?thesis
    using w m work_yields [OF w m] by simp
qed

end
